theory Spec2Isabelle
  imports
    Main
    "HOL-Library.Multiset"
    "HOL-Library.AList"
    "HOL-Library.Char_ord"
    "HOL-Library.List_Lexorder"
begin

section \<open>JSON values as Python sees them\<close>

text \<open>
  The program of \<^verbatim>\<open>packager_codes.py\<close> handles the values that \<^verbatim>\<open>json.loads\<close>
  returns: \<^verbatim>\<open>None\<close>, booleans, integers, strings, lists and dictionaries with string
  keys (\<^verbatim>\<open>JSONObject = Mapping[str, Any]\<close>). A dictionary is kept as an association
  list in insertion order, its keys distinct. Strings are byte strings in UTF-8; their
  bytewise lexicographic order is Python's order by code point. Numbers that are not
  integers (Python floats) are not represented.
\<close>

datatype json =
    JNull
  | JBool bool
  | JInt int
  | JStr string
  | JArr "json list"
  | JObj "(string \<times> json) list"

datatype py_error =
    KeyError
  | TypeError
  | AttributeError
  | JSONDecodeError
  | FileExistsError
  | FileNotFoundError
  | NotADirectoryError
  | IsADirectoryError
  | PermissionError
  | ClickException string
  | ExternalError string

text \<open>
  Python's \<^verbatim>\<open>==\<close> on these values: \<^verbatim>\<open>bool\<close> is a subclass of \<^verbatim>\<open>int\<close>
  (\<^verbatim>\<open>True == 1\<close>), lists are equal elementwise, two dictionaries are equal when they
  have as many keys and every item of the first is found, equal, in the second.
\<close>

fun py_eq :: "json \<Rightarrow> json \<Rightarrow> bool"
  and py_eq_list :: "json list \<Rightarrow> json list \<Rightarrow> bool"
  and py_eq_items :: "(string \<times> json) list \<Rightarrow> (string \<times> json) list \<Rightarrow> bool"
where
  "py_eq JNull b = (b = JNull)"
| "py_eq (JBool x) b =
     (case b of JBool y \<Rightarrow> x = y | JInt y \<Rightarrow> (if x then 1 else 0) = y | _ \<Rightarrow> False)"
| "py_eq (JInt x) b =
     (case b of JBool y \<Rightarrow> x = (if y then 1 else 0) | JInt y \<Rightarrow> x = y | _ \<Rightarrow> False)"
| "py_eq (JStr x) b = (b = JStr x)"
| "py_eq (JArr xs) b = (case b of JArr ys \<Rightarrow> py_eq_list xs ys | _ \<Rightarrow> False)"
| "py_eq (JObj kvs) b =
     (case b of JObj kws \<Rightarrow> length kvs = length kws \<and> py_eq_items kvs kws | _ \<Rightarrow> False)"
| "py_eq_list [] ys = (ys = [])"
| "py_eq_list (x # xs) ys =
     (case ys of [] \<Rightarrow> False | y # ys' \<Rightarrow> py_eq x y \<and> py_eq_list xs ys')"
| "py_eq_items [] kws = True"
| "py_eq_items ((k, v) # kvs) kws =
     (case map_of kws k of None \<Rightarrow> False | Some w \<Rightarrow> py_eq v w \<and> py_eq_items kvs kws)"

text \<open>
  Python's \<^verbatim>\<open>a > b\<close>: defined between two strings, between two numbers and between two
  lists (the first pair of unequal elements decides, else the lengths); every other
  pair raises \<^verbatim>\<open>TypeError\<close>.
\<close>

fun py_gt :: "json \<Rightarrow> json \<Rightarrow> py_error + bool"
  and py_gt_list :: "json list \<Rightarrow> json list \<Rightarrow> py_error + bool"
where
  "py_gt (JStr x) b = (case b of JStr y \<Rightarrow> Inr (y < x) | _ \<Rightarrow> Inl TypeError)"
| "py_gt (JInt x) b =
     (case b of JInt y \<Rightarrow> Inr (y < x) | JBool y \<Rightarrow> Inr ((if y then 1 else 0) < x)
      | _ \<Rightarrow> Inl TypeError)"
| "py_gt (JBool x) b =
     (case b of JInt y \<Rightarrow> Inr (y < (if x then 1 else 0))
      | JBool y \<Rightarrow> Inr ((if y then 1 else 0) < (if x then 1 else (0::int)))
      | _ \<Rightarrow> Inl TypeError)"
| "py_gt (JArr xs) b = (case b of JArr ys \<Rightarrow> py_gt_list xs ys | _ \<Rightarrow> Inl TypeError)"
| "py_gt JNull b = Inl TypeError"
| "py_gt (JObj kvs) b = Inl TypeError"
| "py_gt_list [] ys = Inr False"
| "py_gt_list (x # xs) ys =
     (case ys of [] \<Rightarrow> Inr True
      | y # ys' \<Rightarrow> if py_eq x y then py_gt_list xs ys' else py_gt x y)"

text \<open>\<^verbatim>\<open>d[key]\<close> with a string key: only a dictionary can be subscripted by a string.\<close>

fun py_getitem :: "json \<Rightarrow> string \<Rightarrow> py_error + json" where
  "py_getitem (JObj kvs) key = (case map_of kvs key of None \<Rightarrow> Inl KeyError | Some v \<Rightarrow> Inr v)"
| "py_getitem _ key = Inl TypeError"

text \<open>\<^verbatim>\<open>for d in v\<close>: a list yields its elements, a dictionary its keys, a string its
  characters (here one string per byte); the other values are not iterable.\<close>

fun py_iter :: "json \<Rightarrow> py_error + json list" where
  "py_iter (JArr xs) = Inr xs"
| "py_iter (JObj kvs) = Inr (map (\<lambda>kv. JStr (fst kv)) kvs)"
| "py_iter (JStr s) = Inr (map (\<lambda>c. JStr [c]) s)"
| "py_iter _ = Inl TypeError"

text \<open>
  A value used as a dictionary key must be hashable: lists and dictionaries raise
  \<^verbatim>\<open>TypeError\<close>. Keys that Python holds equal (\<^verbatim>\<open>True\<close> and \<^verbatim>\<open>1\<close>) get one
  representative, so that equality of representatives is equality of keys.
\<close>

fun py_hash_key :: "json \<Rightarrow> py_error + json" where
  "py_hash_key (JArr xs) = Inl TypeError"
| "py_hash_key (JObj kvs) = Inl TypeError"
| "py_hash_key (JBool b) = Inr (JInt (if b then 1 else 0))"
| "py_hash_key v = Inr v"

text \<open>An exception ends the computation: the rest runs only on a value.\<close>

definition py_bind :: "py_error + 'a \<Rightarrow> ('a \<Rightarrow> py_error + 'b) \<Rightarrow> py_error + 'b" where
  "py_bind r f = (case r of Inl e \<Rightarrow> Inl e | Inr v \<Rightarrow> f v)"

section \<open>The diff of two document collections\<close>

text \<open>
  A Python \<^verbatim>\<open>dict\<close> keyed by \<^verbatim>\<open>file_path\<close>: an association list in insertion
  order. Storing under a key that is present replaces the value in place
  (\<^const>\<open>AList.update\<close>).
\<close>

type_synonym docs = "(json \<times> json) list"

text \<open>\<^verbatim>\<open>docs[name]\<close>\<close>

definition dict_get :: "docs \<Rightarrow> json \<Rightarrow> py_error + json" where
  "dict_get docs name = (case map_of docs name of None \<Rightarrow> Inl KeyError | Some d \<Rightarrow> Inr d)"

text \<open>The key expression \<^verbatim>\<open>d["file_path"]\<close> of the comprehension, then its hashing.\<close>

definition doc_key :: "json \<Rightarrow> py_error + json" where
  "doc_key d = py_bind (py_getitem d ''file_path'') py_hash_key"

text \<open>\<^verbatim>\<open>{d["file_path"]: d for d in xs}\<close>, from the dictionary built so far.\<close>

fun dict_comp :: "json list \<Rightarrow> docs \<Rightarrow> py_error + docs" where
  "dict_comp [] acc = Inr acc"
| "dict_comp (d # ds) acc =
     py_bind (doc_key d) (\<lambda>k. dict_comp ds (AList.update k d acc))"

text \<open>
  \<^verbatim>\<open>[doc_name for doc_name, doc in local_docs.items()
     if scraped_docs[doc_name]["publication_date"] > doc["publication_date"]]\<close>
\<close>

fun updated_names :: "docs \<Rightarrow> docs \<Rightarrow> py_error + json list" where
  "updated_names scraped_docs [] = Inr []"
| "updated_names scraped_docs ((doc_name, doc) # items) =
     py_bind (dict_get scraped_docs doc_name) (\<lambda>sdoc.
     py_bind (py_getitem sdoc ''publication_date'') (\<lambda>sdate.
     py_bind (py_getitem doc ''publication_date'') (\<lambda>ldate.
     py_bind (py_gt sdate ldate) (\<lambda>newer.
     py_bind (updated_names scraped_docs items) (\<lambda>names.
       Inr (if newer then doc_name # names else names))))))"

text \<open>\<^verbatim>\<open>[docs[n] for n in names]\<close>\<close>

fun lookup_all :: "docs \<Rightarrow> json list \<Rightarrow> py_error + json list" where
  "lookup_all docs [] = Inr []"
| "lookup_all docs (n # ns) =
     py_bind (dict_get docs n) (\<lambda>d.
     py_bind (lookup_all docs ns) (\<lambda>ds. Inr (d # ds)))"

text \<open>\<^verbatim>\<open>set(a.keys()).difference(b.keys())\<close>: the keys of \<open>a\<close> that are no key of \<open>b\<close>,
  listed without repetition.\<close>

definition keys_difference :: "docs \<Rightarrow> docs \<Rightarrow> json list" where
  "keys_difference a b = filter (\<lambda>n. n \<notin> set (map fst b)) (map fst a)"

text \<open>
  The result dictionary. \<^verbatim>\<open>new\<close> and \<^verbatim>\<open>removed\<close> are lists built by iterating a
  Python set, whose order depends on the hash seed of the process: they are kept as
  multisets. \<^verbatim>\<open>updated\<close> follows the order of \<^verbatim>\<open>local_docs\<close>.
\<close>

record diff =
  new :: "json multiset"
  removed :: "json multiset"
  updated :: "json list"

definition get_diff :: "json \<Rightarrow> json \<Rightarrow> py_error + diff" where
  "get_diff scraped local =
     py_bind (py_iter scraped) (\<lambda>scraped_items.
     py_bind (dict_comp scraped_items []) (\<lambda>scraped_docs.
     py_bind (py_iter local) (\<lambda>local_items.
     py_bind (dict_comp local_items []) (\<lambda>local_docs.
     let new_names = keys_difference scraped_docs local_docs;
         removed_names = keys_difference local_docs scraped_docs
     in
     py_bind (updated_names scraped_docs local_docs) (\<lambda>upd_names.
     py_bind (lookup_all scraped_docs new_names) (\<lambda>new_docs.
     py_bind (lookup_all local_docs removed_names) (\<lambda>removed_docs.
     py_bind (lookup_all scraped_docs upd_names) (\<lambda>updated_docs.
       Inr \<lparr>new = mset new_docs, removed = mset removed_docs, updated = updated_docs\<rparr>))))))))"

section \<open>Paths, the file system and the outside world\<close>

text \<open>
  A \<^verbatim>\<open>pathlib.Path\<close> on a POSIX system: its root (\<^verbatim>\<open>""\<close> for a relative path,
  \<^verbatim>\<open>"/"\<close>, or \<^verbatim>\<open>"//"\<close> when the text starts with exactly two slashes) and its
  components. Empty components and \<^verbatim>\<open>"."\<close> are dropped when a path is built.
\<close>

datatype pypath = PyPath (path_root: string) (path_parts: "string list")

fun split_slash :: "string \<Rightarrow> string list" where
  "split_slash [] = [[]]"
| "split_slash (c # cs) =
     (if c = CHR ''/'' then [] # split_slash cs
      else (case split_slash cs of [] \<Rightarrow> [[c]] | n # ns \<Rightarrow> (c # n) # ns))"

definition name_parts :: "string \<Rightarrow> string list" where
  "name_parts s = filter (\<lambda>n. n \<noteq> [] \<and> n \<noteq> ''.'') (split_slash s)"

definition root_of :: "string \<Rightarrow> string" where
  "root_of s =
     (if take 2 s = ''//'' \<and> take 3 s \<noteq> ''///'' then ''//''
      else if take 1 s = ''/'' then ''/'' else [])"

text \<open>\<^verbatim>\<open>Path(s)\<close>\<close>

definition Path :: "string \<Rightarrow> pypath" where
  "Path s = PyPath (root_of s) (name_parts s)"

text \<open>\<^verbatim>\<open>p / v\<close>: an absolute right operand replaces the left one; an operand that is
  not a string raises \<^verbatim>\<open>TypeError\<close>.\<close>

fun path_truediv :: "pypath \<Rightarrow> json \<Rightarrow> py_error + pypath" where
  "path_truediv p (JStr s) =
     Inr (if root_of s \<noteq> [] then Path s
          else PyPath (path_root p) (path_parts p @ name_parts s))"
| "path_truediv p _ = Inl TypeError"

text \<open>\<^verbatim>\<open>p.parent\<close>\<close>

definition parent :: "pypath \<Rightarrow> pypath" where
  "parent p = PyPath (path_root p) (butlast (path_parts p))"

fun join_slash :: "string list \<Rightarrow> string" where
  "join_slash [] = []"
| "join_slash [n] = n"
| "join_slash (n # ns) = n @ ''/'' @ join_slash ns"

text \<open>\<^verbatim>\<open>str(p)\<close>\<close>

definition path_str :: "pypath \<Rightarrow> string" where
  "path_str p =
     (if path_root p = [] \<and> path_parts p = [] then ''.''
      else path_root p @ join_slash (path_parts p))"

text \<open>
  The file system is a tree of directories and files, each entry addressed by the list of
  names that leads to it from the root; there are no symbolic links. A file holds bytes,
  or the text that \<^verbatim>\<open>json.dump\<close> wrote for a value, kept as that value.
\<close>

type_synonym location = "string list"

datatype content = Bytes string | JsonText json

datatype node = Dir | File content

datatype event = ScraperRun | UrlOpened string

record world =
  files :: "location \<Rightarrow> node option"
  events :: "event list"

text \<open>
  What the program does not decide: the working directory, what the scraper returns and
  what its run does to the files (the import of scrapy and the child process write
  byte-code caches, and the spider whatever it writes), what each request returns (the
  \<open>i\<close>-th document's request answers \<^verbatim>\<open>urlopen\<close> and then \<^verbatim>\<open>response.read()\<close>),
  which entries the operating system refuses to create or write, how \<^verbatim>\<open>json.load\<close>
  reads bytes, and the clock.
\<close>

record env =
  cwd :: location
  scrape_result :: "py_error + json"
  scraper_files :: "(location \<Rightarrow> node option) \<Rightarrow> (location \<Rightarrow> node option)"
  urlopen :: "nat \<Rightarrow> string \<Rightarrow> py_error + (py_error + string)"
  denied :: "location \<Rightarrow> bool"
  json_loads :: "string \<Rightarrow> json option"
  now_isoformat :: string

definition node_at :: "world \<Rightarrow> location \<Rightarrow> node option" where
  "node_at w l = (if l = [] then Some Dir else files w l)"

text \<open>
  How the system follows the names of a path from the directory \<open>cur\<close>: each name is
  looked up in a directory (\<^verbatim>\<open>ENOENT\<close> when there is nothing, \<^verbatim>\<open>ENOTDIR\<close> when there is
  a file), and \<^verbatim>\<open>".."\<close> leads to the directory above. The last name need not exist.
\<close>

fun walk :: "world \<Rightarrow> location \<Rightarrow> string list \<Rightarrow> py_error + location" where
  "walk w cur [] = Inr cur"
| "walk w cur (n # ns) =
     (case node_at w cur of
        None \<Rightarrow> Inl FileNotFoundError
      | Some (File c) \<Rightarrow> Inl NotADirectoryError
      | Some Dir \<Rightarrow> walk w (if n = ''..'' then butlast cur else cur @ [n]) ns)"

text \<open>The entry a path stands for: a relative path starts in the working directory.\<close>

definition locate :: "env \<Rightarrow> world \<Rightarrow> pypath \<Rightarrow> py_error + location" where
  "locate env w p = walk w [] ((if path_root p = [] then cwd env else []) @ path_parts p)"

text \<open>\<^verbatim>\<open>p.exists()\<close> and \<^verbatim>\<open>p.is_dir()\<close>: a path that leads nowhere is not an error.\<close>

definition path_exists :: "env \<Rightarrow> world \<Rightarrow> pypath \<Rightarrow> bool" where
  "path_exists env w p = (case locate env w p of Inl e \<Rightarrow> False | Inr l \<Rightarrow> node_at w l \<noteq> None)"

definition is_dir :: "env \<Rightarrow> world \<Rightarrow> pypath \<Rightarrow> bool" where
  "is_dir env w p = (case locate env w p of Inl e \<Rightarrow> False | Inr l \<Rightarrow> node_at w l = Some Dir)"

text \<open>
  A command step runs in a world and ends with a value or an exception; either way the
  world it leaves is the one the next step, or the user, finds: nothing is rolled back.
\<close>

type_synonym 'a io = "world \<Rightarrow> (py_error + 'a) \<times> world"

definition io_bind :: "'a io \<Rightarrow> ('a \<Rightarrow> 'b io) \<Rightarrow> 'b io" where
  "io_bind m f w = (case m w of (Inl e, w') \<Rightarrow> (Inl e, w') | (Inr v, w') \<Rightarrow> f v w')"

definition io_pure :: "py_error + 'a \<Rightarrow> 'a io" where
  "io_pure r w = (r, w)"

definition io_raise :: "py_error \<Rightarrow> 'a io" where
  "io_raise e w = (Inl e, w)"

definition io_return :: "'a \<Rightarrow> 'a io" where
  "io_return v w = (Inr v, w)"

text \<open>\<^verbatim>\<open>os.mkdir(p)\<close>\<close>

definition os_mkdir :: "env \<Rightarrow> pypath \<Rightarrow> unit io" where
  "os_mkdir env p w =
     (case locate env w p of
        Inl e \<Rightarrow> (Inl e, w)
      | Inr l \<Rightarrow>
          if node_at w l \<noteq> None then (Inl FileExistsError, w)
          else if denied env l then (Inl PermissionError, w)
          else (Inr (), w\<lparr>files := (files w)(l \<mapsto> Dir)\<rparr>))"

text \<open>
  \<^verbatim>\<open>p.mkdir(parents=False, exist_ok=True)\<close>: \<^verbatim>\<open>FileNotFoundError\<close> is raised again;
  any other \<^verbatim>\<open>OSError\<close> is dropped when the path is a directory.
\<close>

definition mkdir_exist_ok :: "env \<Rightarrow> pypath \<Rightarrow> unit io" where
  "mkdir_exist_ok env p w =
     (case os_mkdir env p w of
        (Inr u, w') \<Rightarrow> (Inr u, w')
      | (Inl e, w') \<Rightarrow>
          if e \<noteq> FileNotFoundError \<and> is_dir env w' p then (Inr (), w') else (Inl e, w'))"

text \<open>
  \<^verbatim>\<open>p.mkdir(parents=True, exist_ok=True)\<close>: on \<^verbatim>\<open>FileNotFoundError\<close> the parent is
  made first, unless the path is its own parent.
\<close>

function mkdir_parents :: "env \<Rightarrow> pypath \<Rightarrow> unit io" where
  "mkdir_parents env p w =
     (case os_mkdir env p w of
        (Inr u, w') \<Rightarrow> (Inr u, w')
      | (Inl e, w') \<Rightarrow>
          if e = FileNotFoundError then
            (if parent p = p then (Inl e, w')
             else (case mkdir_parents env (parent p) w' of
                     (Inl e', w'') \<Rightarrow> (Inl e', w'')
                   | (Inr u, w'') \<Rightarrow> mkdir_exist_ok env p w''))
          else if is_dir env w' p then (Inr (), w') else (Inl e, w'))"
  by pat_completeness auto
termination
proof (relation "measure (\<lambda>(env, p, w). length (path_parts p))")
  show "wf (measure (\<lambda>(env, p, w). length (path_parts p)))" by simp
next
  fix env :: env and p :: pypath and w w' :: world
  assume "parent p \<noteq> p"
  then have "path_parts p \<noteq> []"
    by (cases p) (auto simp: parent_def)
  then show "((env, parent p, w'), (env, p, w)) \<in> measure (\<lambda>(env, p, w). length (path_parts p))"
    by (simp add: parent_def)
qed

text \<open>
  \<^verbatim>\<open>p.open("w")\<close> and \<^verbatim>\<open>p.open("wb")\<close>: the file is created, or emptied. The open file
  is known by the entry it is.
\<close>

definition open_write :: "env \<Rightarrow> pypath \<Rightarrow> location io" where
  "open_write env p w =
     (case locate env w p of
        Inl e \<Rightarrow> (Inl e, w)
      | Inr l \<Rightarrow>
          if node_at w l = Some Dir then (Inl IsADirectoryError, w)
          else if denied env l then (Inl PermissionError, w)
          else (Inr l, w\<lparr>files := (files w)(l \<mapsto> File (Bytes []))\<rparr>))"

text \<open>Writing to the open file and closing it.\<close>

definition write_content :: "location \<Rightarrow> content \<Rightarrow> unit io" where
  "write_content l c w = (Inr (), w\<lparr>files := (files w)(l \<mapsto> File c)\<rparr>)"

text \<open>\<^verbatim>\<open>p.open("r")\<close> and reading the file.\<close>

definition read_content :: "env \<Rightarrow> pypath \<Rightarrow> content io" where
  "read_content env p w =
     (case locate env w p of
        Inl e \<Rightarrow> (Inl e, w)
      | Inr l \<Rightarrow>
          (case node_at w l of
             None \<Rightarrow> (Inl FileNotFoundError, w)
           | Some Dir \<Rightarrow> (Inl IsADirectoryError, w)
           | Some (File c) \<Rightarrow> (Inr c, w)))"

text \<open>\<^verbatim>\<open>urlopen(url)\<close>: a value that is not a string has no \<^verbatim>\<open>timeout\<close> attribute to
  set. The response is what \<^verbatim>\<open>response.read()\<close> will give.\<close>

fun py_urlopen :: "env \<Rightarrow> nat \<Rightarrow> json \<Rightarrow> (py_error + string) io" where
  "py_urlopen env i (JStr u) w = (urlopen env i u, w\<lparr>events := events w @ [UrlOpened u]\<rparr>)"
| "py_urlopen env i _ w = (Inl AttributeError, w)"

text \<open>\<^verbatim>\<open>len(v)\<close>\<close>

fun py_len :: "json \<Rightarrow> py_error + nat" where
  "py_len (JArr xs) = Inr (length xs)"
| "py_len (JObj kvs) = Inr (length kvs)"
| "py_len (JStr s) = Inr (length s)"
| "py_len _ = Inl TypeError"

text \<open>\<^verbatim>\<open>d.get(key, default)\<close>\<close>

fun py_get :: "json \<Rightarrow> string \<Rightarrow> json \<Rightarrow> py_error + json" where
  "py_get (JObj kvs) key dflt =
     Inr (case map_of kvs key of None \<Rightarrow> dflt | Some v \<Rightarrow> v)"
| "py_get _ key dflt = Inl AttributeError"

section \<open>Scraping and downloading\<close>

text \<open>
  \<^verbatim>\<open>scrape_document_info\<close> imports scrapy, runs the spider
  \<^verbatim>\<open>non_eu_spider.py\<close> of the working directory in a child process and decodes what it
  printed: each step is a call out of the program. The outcome of the three is the
  environment's, and so are the files they leave: the child process is not confined to
  any directory.
\<close>

definition scrape_document_info :: "env \<Rightarrow> json io" where
  "scrape_document_info env w =
     (scrape_result env,
      w\<lparr>files := scraper_files env (files w), events := events w @ [ScraperRun]\<rparr>)"

text \<open>
  One turn of the loop of \<^verbatim>\<open>download_documents\<close>, for the \<open>i\<close>-th document. The
  logging call reads \<^verbatim>\<open>doc_info["url"]\<close> before the directories are made.
\<close>

definition download_document :: "env \<Rightarrow> pypath \<Rightarrow> nat \<Rightarrow> json \<Rightarrow> unit io" where
  "download_document env dest_dir i doc_info =
     io_bind (io_pure (py_getitem doc_info ''file_path'')) (\<lambda>file_path.
     io_bind (io_pure (path_truediv dest_dir file_path)) (\<lambda>dest_path.
     io_bind (io_pure (py_getitem doc_info ''url'')) (\<lambda>logged.
     io_bind (mkdir_parents env (parent dest_path)) (\<lambda>u.
     io_bind (io_pure (py_getitem doc_info ''url'')) (\<lambda>url.
     io_bind (py_urlopen env i url) (\<lambda>response.
     io_bind (open_write env dest_path) (\<lambda>dest_file.
     io_bind (io_pure response) (\<lambda>body.
       write_content dest_file (Bytes body)))))))))"

fun download_loop :: "env \<Rightarrow> pypath \<Rightarrow> nat \<Rightarrow> json list \<Rightarrow> unit io" where
  "download_loop env dest_dir i [] = io_return ()"
| "download_loop env dest_dir i (doc_info # rest) =
     io_bind (download_document env dest_dir i doc_info) (\<lambda>u.
       download_loop env dest_dir (Suc i) rest)"

definition download_documents :: "env \<Rightarrow> json \<Rightarrow> pypath \<Rightarrow> unit io" where
  "download_documents env document_info dest_dir =
     io_bind (io_pure (py_len document_info)) (\<lambda>n.
     io_bind (io_pure (py_iter document_info)) (\<lambda>items.
       download_loop env dest_dir 0 items))"

section \<open>The commands\<close>

text \<open>
  The two commands are their function bodies, called with the argument as a string. What
  \<^verbatim>\<open>click\<close> does with the command line before it calls them is left out.
\<close>

definition manifest :: "env \<Rightarrow> json \<Rightarrow> json" where
  "manifest env document_info =
     JObj [(''description'', JStr ''OpenFoodFacts non-EU packager codes''),
           (''updated'', JStr (now_isoformat env)),
           (''document_info'', document_info)]"

text \<open>\<^verbatim>\<open>"destination directory '{}' already exists".format(dest_dir)\<close>\<close>

definition already_exists :: "pypath \<Rightarrow> string" where
  "already_exists p =
     ''destination directory '' @ [CHR 0x27] @ path_str p @ [CHR 0x27] @ '' already exists''"

definition download :: "env \<Rightarrow> string \<Rightarrow> unit io" where
  "download env dest_dir_arg =
     (let dest_dir = Path dest_dir_arg in
      io_bind (\<lambda>w. (Inr (path_exists env w dest_dir), w)) (\<lambda>there.
        if there then
          io_raise (ClickException (already_exists dest_dir))
        else
          io_bind (os_mkdir env dest_dir) (\<lambda>u.
          io_bind (scrape_document_info env) (\<lambda>document_info.
          io_bind (download_documents env document_info dest_dir) (\<lambda>u.
          io_bind (io_pure (path_truediv dest_dir (JStr ''meta.json''))) (\<lambda>meta_path.
          io_bind (open_write env meta_path) (\<lambda>meta_file.
            write_content meta_file (JsonText (manifest env document_info)))))))))"

text \<open>
  \<^verbatim>\<open>json.load(meta_file)\<close>: text that \<^verbatim>\<open>json.dump\<close> wrote is read back as the
  value written; other bytes are decoded, or raise \<^verbatim>\<open>json.JSONDecodeError\<close> (bytes
  that are not UTF-8 raise \<^verbatim>\<open>UnicodeDecodeError\<close>, also a \<^verbatim>\<open>ValueError\<close>, which is
  not told apart).
\<close>

fun json_load :: "env \<Rightarrow> content \<Rightarrow> py_error + json" where
  "json_load env (JsonText v) = Inr v"
| "json_load env (Bytes b) =
     (case json_loads env b of None \<Rightarrow> Inl JSONDecodeError | Some v \<Rightarrow> Inr v)"

text \<open>
  The first lines of \<^verbatim>\<open>status\<close>: the manifest that is assumed when there is no
  \<^verbatim>\<open>meta.json\<close>, or what \<^verbatim>\<open>json.load\<close> reads from it.
\<close>

definition load_local_meta :: "env \<Rightarrow> pypath \<Rightarrow> json io" where
  "load_local_meta env meta_path w =
     (if \<not> path_exists env w meta_path then (Inr (JObj [(''document_info'', JArr [])]), w)
      else io_bind (read_content env meta_path) (\<lambda>c. io_pure (json_load env c)) w)"

text \<open>
  What \<^verbatim>\<open>status\<close> prints: the diff itself (\<^verbatim>\<open>pprint\<close>), or the summary, given by the
  four values that fill \<^verbatim>\<open>"Last updated: {}\\nNew: {}, Removed: {}, Updated: {}"\<close>.
\<close>

datatype echoed = Pretty diff | Summary json nat nat nat

definition status :: "env \<Rightarrow> string \<Rightarrow> string \<Rightarrow> echoed io" where
  "status env data_dir_arg output_format =
     (let data_dir = Path data_dir_arg in
      io_bind (io_pure (path_truediv data_dir (JStr ''meta.json''))) (\<lambda>meta_path.
      io_bind (load_local_meta env meta_path) (\<lambda>local_meta.
      io_bind (scrape_document_info env) (\<lambda>scraped_info.
      io_bind (io_pure (py_getitem local_meta ''document_info'')) (\<lambda>local.
      io_bind (io_pure (get_diff scraped_info local)) (\<lambda>doc_diff.
        if output_format = ''json'' then io_return (Pretty doc_diff)
        else
          io_bind (io_pure (py_get local_meta ''updated'' (JStr ''never''))) (\<lambda>last_updated.
            io_return (Summary last_updated (size (new doc_diff)) (size (removed doc_diff))
              (length (updated doc_diff))))))))))"

section \<open>Notions used in the statements\<close>

text \<open>
  A document record as the diff needs it: a dictionary whose \<^verbatim>\<open>file_path\<close> is a
  string and whose \<^verbatim>\<open>publication_date\<close> is a string or an integer.
\<close>

fun is_string :: "json \<Rightarrow> bool" where
  "is_string (JStr s) = True"
| "is_string _ = False"

fun is_date :: "json \<Rightarrow> bool" where
  "is_date (JStr s) = True"
| "is_date (JInt n) = True"
| "is_date _ = False"

fun document_record :: "json \<Rightarrow> bool" where
  "document_record (JObj kvs) =
     (case (map_of kvs ''file_path'', map_of kvs ''publication_date'') of
        (Some fp, Some pd) \<Rightarrow> is_string fp \<and> is_date pd
      | _ \<Rightarrow> False)"
| "document_record _ = False"

text \<open>Whether the comparison of \<^const>\<open>updated_names\<close> holds between two records.\<close>

definition newer :: "json \<Rightarrow> json \<Rightarrow> bool" where
  "newer sdoc doc =
     (py_bind (py_getitem sdoc ''publication_date'') (\<lambda>sdate.
      py_bind (py_getitem doc ''publication_date'') (\<lambda>ldate. py_gt sdate ldate)) = Inr True)"

text \<open>
  The entry that \<^verbatim>\<open>dest_dir / doc_info["file_path"]\<close> stands for in the world \<open>w\<close>:
  where \<^verbatim>\<open>download_documents\<close> writes the document.
\<close>

definition destination :: "env \<Rightarrow> world \<Rightarrow> pypath \<Rightarrow> json \<Rightarrow> location option" where
  "destination env w dest_dir doc_info =
     (case py_bind (py_getitem doc_info ''file_path'') (path_truediv dest_dir) of
        Inl e \<Rightarrow> None
      | Inr dest_path \<Rightarrow>
          (case locate env w dest_path of Inl e \<Rightarrow> None | Inr l \<Rightarrow> Some l))"

text \<open>The path \<^verbatim>\<open>Path(dir) / "meta.json"\<close> of the manifest.\<close>

definition meta_path :: "string \<Rightarrow> pypath" where
  "meta_path dir_arg =
     PyPath (path_root (Path dir_arg)) (path_parts (Path dir_arg) @ [''meta.json''])"

text \<open>
  From \<open>w\<close> to \<open>w'\<close> every entry is unchanged, or is a new directory, or is one of
  \<open>T\<close>, was no directory and now holds bytes.
\<close>

definition writes_within :: "location set \<Rightarrow> world \<Rightarrow> world \<Rightarrow> bool" where
  "writes_within T w w' =
     (\<forall>l. files w' l = files w l
        \<or> (files w l = None \<and> files w' l = Some Dir)
        \<or> (l \<in> T \<and> files w l \<noteq> Some Dir \<and> (\<exists>b. files w' l = Some (File (Bytes b)))))"

section \<open>Example data\<close>

definition example_a1 :: json where
  "example_a1 = JObj [(''file_path'', JStr ''a.pdf''), (''url'', JStr ''http://x/a''),
     (''publication_date'', JStr ''2020-01-01'')]"

definition example_a2 :: json where
  "example_a2 = JObj [(''file_path'', JStr ''a.pdf''), (''url'', JStr ''http://x/a''),
     (''publication_date'', JStr ''2020-06-01'')]"

definition example_b :: json where
  "example_b = JObj [(''file_path'', JStr ''b.pdf''), (''url'', JStr ''http://x/b''),
     (''publication_date'', JStr ''2021-01-01'')]"

definition example_m :: json where
  "example_m = JObj [(''file_path'', JStr ''meta.json''), (''url'', JStr ''http://x/m''),
     (''publication_date'', JStr ''2021-01-01'')]"

text \<open>
  An environment whose scraper returns \<open>scraped\<close> and leaves the files as they are; two
  addresses answer, any other request fails; nothing on disk is valid JSON unless
  \<^verbatim>\<open>json.dump\<close> wrote it.
\<close>

definition example_env :: "json \<Rightarrow> env" where
  "example_env scraped =
     \<lparr>cwd = [''home''], scrape_result = Inr scraped, scraper_files = (\<lambda>fs. fs),
      urlopen = (\<lambda>i u. if u = ''http://x/a'' then Inr (Inr ''AAA'')
                       else if u = ''http://x/m'' then Inr (Inr ''MMM'')
                       else Inl (ExternalError ''HTTPError'')),
      denied = (\<lambda>l. False), json_loads = (\<lambda>b. None),
      now_isoformat = ''2021-02-03T04:05:06''\<rparr>"

text \<open>
  The same with a scraper run that leaves a byte-code cache directory and a file
  \<^verbatim>\<open>-\<close> in the working directory.
\<close>

definition example_env_writing :: "json \<Rightarrow> env" where
  "example_env_writing scraped =
     (example_env scraped)\<lparr>scraper_files :=
        (\<lambda>fs. fs([''home'', ''__pycache__''] \<mapsto> Dir, [''home'', ''-''] \<mapsto> File (Bytes [])))\<rparr>"

definition example_world :: world where
  "example_world = \<lparr>files = [[''home''] \<mapsto> Dir], events = []\<rparr>"

text \<open>The same with a data directory \<^verbatim>\<open>out\<close> whose \<^verbatim>\<open>meta.json\<close> holds \<open>c\<close>.\<close>

definition example_world_with :: "content \<Rightarrow> world" where
  "example_world_with c =
     \<lparr>files = [[''home''] \<mapsto> Dir, [''home'', ''out''] \<mapsto> Dir,
               [''home'', ''out'', ''meta.json''] \<mapsto> File c],
      events = []\<rparr>"

section \<open>Exceptions and dictionaries\<close>

lemma py_bind_Inl [simp]: "py_bind (Inl e) f = Inl e"
  by (simp add: py_bind_def)

lemma py_bind_Inr [simp]: "py_bind (Inr v) f = f v"
  by (simp add: py_bind_def)

lemma py_bind_eq_Inr: "py_bind r f = Inr y \<longleftrightarrow> (\<exists>v. r = Inr v \<and> f v = Inr y)"
  by (cases r) simp_all


lemma map_of_Some_fst: "map_of al k = Some v \<Longrightarrow> k \<in> fst ` set al"
  by (force dest: map_of_SomeD)

lemma update_fresh: "k \<notin> fst ` set al \<Longrightarrow> AList.update k v al = al @ [(k, v)]"
  by (induction al) auto

lemma set_update_subset: "set (AList.update k v al) \<subseteq> insert (k, v) (set al)"
  by (induction al) auto

lemma updates_fresh:
  "length ks = length vs \<Longrightarrow> distinct ks \<Longrightarrow> set ks \<inter> fst ` set al = {} \<Longrightarrow>
   AList.updates ks vs al = al @ zip ks vs"
proof (induction ks arbitrary: vs al)
  case Nil
  then show ?case by simp
next
  case (Cons k ks)
  then obtain v vs' where vs: "vs = v # vs'" by (cases vs) auto
  have "AList.updates ks vs' (al @ [(k, v)]) = (al @ [(k, v)]) @ zip ks vs'"
    using Cons.prems vs by (intro Cons.IH) auto
  then show ?case
    using Cons.prems vs by (simp add: update_fresh)
qed

section \<open>The dictionary built from a collection\<close>

lemma dict_comp_distinct:
  "dict_comp ds acc = Inr m \<Longrightarrow> distinct (map fst acc) \<Longrightarrow> distinct (map fst m)"
  by (induction ds arbitrary: acc) (auto simp: py_bind_eq_Inr distinct_update)




lemma dict_comp_total:
  "\<forall>d \<in> set ds. \<exists>k. doc_key d = Inr k \<Longrightarrow> \<exists>m. dict_comp ds acc = Inr m"
  by (induction ds arbitrary: acc) auto

lemma dict_comp_snd:
  "dict_comp ds acc = Inr m \<Longrightarrow> snd ` set m \<subseteq> snd ` set acc \<union> set ds"
proof (induction ds arbitrary: acc)
  case Nil
  then show ?case by simp
next
  case (Cons d ds)
  from Cons.prems obtain k where rest: "dict_comp ds (AList.update k d acc) = Inr m"
    by (auto simp: py_bind_eq_Inr)
  have "snd ` set (AList.update k d acc) \<subseteq> insert d (snd ` set acc)"
    using set_update_subset [of k d acc] by auto
  with Cons.IH [OF rest] show ?case by auto
qed

lemma dict_comp_updates:
  "map doc_key ds = map Inr ks \<Longrightarrow> dict_comp ds acc = Inr (AList.updates ks ds acc)"
proof (induction ds arbitrary: ks acc)
  case Nil
  then show ?case by simp
next
  case (Cons d ds)
  then obtain k ks' where "ks = k # ks'" "doc_key d = Inr k" "map doc_key ds = map Inr ks'"
    by (cases ks) auto
  with Cons.IH show ?case by simp
qed

lemma lookup_all_keys:
  "distinct (map fst m) \<Longrightarrow> set items \<subseteq> set m \<Longrightarrow>
   lookup_all m (map fst items) = Inr (map snd items)"
  by (induction items) (auto simp: dict_get_def)

lemma keys_difference_empty [simp]: "keys_difference m [] = map fst m"
  by (simp add: keys_difference_def)

lemma keys_difference_Nil [simp]: "keys_difference [] m = []"
  by (simp add: keys_difference_def)

section \<open>What the comparison of dates returns\<close>

lemma is_date_gt: "is_date pd \<Longrightarrow> py_gt pd pd = Inr False"
  by (cases pd) simp_all

lemma document_record_fields:
  assumes "document_record d"
  obtains fp pd where "py_getitem d ''file_path'' = Inr (JStr fp)"
    and "py_getitem d ''publication_date'' = Inr pd" and "py_gt pd pd = Inr False"
proof (cases d)
  case (JObj kvs)
  with assms obtain v pd where v: "map_of kvs ''file_path'' = Some v" "is_string v"
    and pd: "map_of kvs ''publication_date'' = Some pd" "is_date pd"
    by (auto split: option.splits)
  from v(2) obtain fp where "v = JStr fp"
    by (cases v) simp_all
  with v pd JObj that show ?thesis
    by (simp add: is_date_gt)
qed (use assms in simp_all)

lemma document_record_key: "document_record d \<Longrightarrow> \<exists>k. doc_key d = Inr k"
  by (erule document_record_fields) (simp add: doc_key_def)

lemma updated_names_present:
  "updated_names sd items = Inr ns \<Longrightarrow> fst ` set items \<subseteq> fst ` set sd"
proof (induction items arbitrary: ns)
  case Nil
  then show ?case by simp
next
  case (Cons kd items)
  obtain k d where kd: "kd = (k, d)" by (cases kd)
  from Cons.prems kd obtain s ns' where "dict_get sd k = Inr s"
    and "updated_names sd items = Inr ns'"
    by (auto simp: py_bind_eq_Inr)
  then show ?case
    using Cons.IH kd by (auto simp: dict_get_def split: option.splits dest: map_of_Some_fst)
qed

text \<open>
  Where \<^const>\<open>updated_names\<close> returns, it lists the names of \<^verbatim>\<open>local_docs\<close>, in order,
  whose scraped record is \<^const>\<open>newer\<close>.
\<close>

lemma updated_names_returned:
  "updated_names sd items = Inr ns \<Longrightarrow>
   ns = map fst (filter (\<lambda>(k, d). case map_of sd k of None \<Rightarrow> False | Some s \<Rightarrow> newer s d) items)"
proof (induction items arbitrary: ns)
  case Nil
  then show ?case by simp
next
  case (Cons kd items)
  obtain k d where kd: "kd = (k, d)" by (cases kd)
  from Cons.prems kd obtain s sdate ldate b ns'
    where s: "map_of sd k = Some s"
      and dates: "py_getitem s ''publication_date'' = Inr sdate"
        "py_getitem d ''publication_date'' = Inr ldate" "py_gt sdate ldate = Inr b"
      and rest: "updated_names sd items = Inr ns'"
      and ns: "ns = (if b then k # ns' else ns')"
    by (auto simp: py_bind_eq_Inr dict_get_def split: option.splits)
  have "newer s d = b"
    using dates by (simp add: newer_def)
  with Cons.IH [OF rest] s ns kd show ?case by simp
qed

lemma updated_names_same:
  "distinct (map fst m) \<Longrightarrow> set items \<subseteq> set m \<Longrightarrow>
   \<forall>d \<in> snd ` set m. document_record d \<Longrightarrow> updated_names m items = Inr []"
proof (induction items)
  case Nil
  then show ?case by simp
next
  case (Cons kd items)
  obtain k d where kd: "kd = (k, d)" by (cases kd)
  have mem: "(k, d) \<in> set m" using Cons.prems(2) kd by simp
  then have got: "dict_get m k = Inr d"
    using Cons.prems(1) by (simp add: dict_get_def)
  have "document_record d" using mem Cons.prems(3) by force
  then obtain pd where "py_getitem d ''publication_date'' = Inr pd" "py_gt pd pd = Inr False"
    by (rule document_record_fields)
  then show ?case
    using Cons kd got by simp
qed

text \<open>
  Whenever \<^const>\<open>get_diff\<close> returns, every name of \<^verbatim>\<open>local_docs\<close> was found in
  \<^verbatim>\<open>scraped_docs\<close>, so that nothing is left to be listed as removed.
\<close>

lemma get_diff_removed_empty:
  assumes "get_diff scraped local = Inr r"
  shows "removed r = {#}"
proof -
  from assms obtain sd ld ns removed_docs
    where upd: "updated_names sd ld = Inr ns"
      and rem: "lookup_all ld (keys_difference ld sd) = Inr removed_docs"
      and r: "removed r = mset removed_docs"
    by (auto simp: get_diff_def Let_def py_bind_eq_Inr)
  have "keys_difference ld sd = []"
    using updated_names_present [OF upd] by (auto simp: keys_difference_def filter_empty_conv)
  with rem r show ?thesis by simp
qed

text \<open>
  Whenever \<^const>\<open>get_diff\<close> returns, \<^verbatim>\<open>updated\<close> holds, in the order of
  \<^verbatim>\<open>local_docs\<close>, the scraped record of each name whose scraped record is
  \<^const>\<open>newer\<close> than the local one.
\<close>

lemma lookup_all_returned:
  "lookup_all docs ns = Inr ds \<Longrightarrow> map (map_of docs) ns = map Some ds"
  by (induction ns arbitrary: ds) (auto simp: py_bind_eq_Inr dict_get_def split: option.splits)

lemma get_diff_updated_returned:
  assumes "get_diff (JArr scraped) (JArr local) = Inr r"
    and "dict_comp scraped [] = Inr scraped_docs"
    and "dict_comp local [] = Inr local_docs"
  shows "map Some (updated r) =
    map (map_of scraped_docs \<circ> fst)
      (filter (\<lambda>(k, d). case map_of scraped_docs k of None \<Rightarrow> False | Some s \<Rightarrow> newer s d)
         local_docs)"
proof -
  from assms obtain ns
    where upd: "updated_names scraped_docs local_docs = Inr ns"
      and r: "lookup_all scraped_docs ns = Inr (updated r)"
    by (auto simp: get_diff_def Let_def py_bind_eq_Inr)
  from lookup_all_returned [OF r] updated_names_returned [OF upd]
  show ?thesis by simp
qed

lemmas example_defs = example_a1_def example_a2_def example_b_def example_env_def
  example_world_def

lemmas diff_defs = get_diff_def Let_def doc_key_def dict_get_def keys_difference_def

section \<open>Claims on the diff\<close>

text \<open>
  An example with one newer and one new document: \<^verbatim>\<open>a.pdf\<close> is local with an older
  date, \<^verbatim>\<open>b.pdf\<close> is only scraped.
\<close>

lemma get_diff_example:
  "get_diff (JArr [example_a2, example_b]) (JArr [example_a1]) =
     Inr \<lparr>new = {#example_b#}, removed = {#}, updated = [example_a2]\<rparr>"
  by (simp add: diff_defs example_defs)

text \<open>
  C1. The claim: the records of \<^verbatim>\<open>local\<close> whose \<^verbatim>\<open>file_path\<close> is not in
  \<^verbatim>\<open>scraped\<close> are returned as removed, in their local version; with an empty
  \<^verbatim>\<open>scraped\<close>, all of \<^verbatim>\<open>local\<close>. The code computes \<^verbatim>\<open>removed_names\<close> so, but
  before that \<^verbatim>\<open>updated_names\<close> reads \<^verbatim>\<open>scraped_docs[doc_name]\<close> for every local name:
  with one local record and nothing scraped, \<^verbatim>\<open>get_diff\<close> raises \<^verbatim>\<open>KeyError\<close>.
\<close>

theorem get_diff_removed_KeyError:
  "get_diff (JArr []) (JArr [example_a1]) = Inl KeyError"
  by (simp add: diff_defs example_defs)

text \<open>
  C2. The claim: for every pair of collections the records in both whose scraped
  \<^verbatim>\<open>publication_date\<close> is strictly greater are returned as updated, in their scraped
  version. Here \<^verbatim>\<open>a.pdf\<close> is in both and newer in \<^verbatim>\<open>scraped\<close>, but \<^verbatim>\<open>b.pdf\<close> is only
  local: \<^verbatim>\<open>get_diff\<close> raises \<^verbatim>\<open>KeyError\<close> and classifies nothing.
\<close>

theorem get_diff_updated_KeyError:
  "get_diff (JArr [example_a2]) (JArr [example_a1, example_b]) = Inl KeyError"
  by (simp add: diff_defs example_defs)

text \<open>
  C3. For every collection \<open>A\<close> of document records, \<^verbatim>\<open>get_diff(A, A)\<close> returns empty
  \<^verbatim>\<open>new\<close>, \<^verbatim>\<open>removed\<close> and \<^verbatim>\<open>updated\<close>.
\<close>

theorem get_diff_same:
  assumes docs: "\<forall>d \<in> set A. document_record d"
  shows "get_diff (JArr A) (JArr A) = Inr \<lparr>new = {#}, removed = {#}, updated = []\<rparr>"
proof -
  from docs obtain m where m: "dict_comp A [] = Inr m"
    using dict_comp_total [of A "[]"] document_record_key by blast
  have dist: "distinct (map fst m)"
    using dict_comp_distinct [OF m] by simp
  have "\<forall>d \<in> snd ` set m. document_record d"
    using dict_comp_snd [OF m] docs by auto
  then have upd: "updated_names m m = Inr []"
    using dist by (intro updated_names_same) auto
  have none: "keys_difference m m = []"
    by (simp add: keys_difference_def)
  show ?thesis
    by (simp add: get_diff_def Let_def m upd none)
qed

theorem get_diff_same_witness:
  "document_record example_a1 \<and> document_record example_b \<and>
   get_diff (JArr [example_a1, example_b]) (JArr [example_a1, example_b]) =
     Inr \<lparr>new = {#}, removed = {#}, updated = []\<rparr>"
proof -
  have h: "\<forall>d \<in> set [example_a1, example_b]. document_record d"
    by (simp add: example_defs)
  from h get_diff_same [OF h] show ?thesis by simp
qed

text \<open>
  C4. For every collection \<open>A\<close> whose records have a \<^verbatim>\<open>file_path\<close> that can be a key
  (\<open>ks\<close> are the keys), \<^verbatim>\<open>get_diff(A, [])\<close> returns as \<^verbatim>\<open>new\<close> the values of the
  dictionary that maps each key to its record, nothing removed and nothing updated;
  when the keys are distinct these values are \<open>A\<close> itself.
\<close>

theorem get_diff_empty_local:
  assumes keys: "map doc_key A = map Inr ks"
  shows "get_diff (JArr A) (JArr []) =
           Inr \<lparr>new = mset (map snd (AList.updates ks A [])), removed = {#}, updated = []\<rparr>
         \<and> map_of (AList.updates ks A []) = map_of (rev (zip ks A))
         \<and> (distinct ks \<longrightarrow> map snd (AList.updates ks A []) = A)"
proof -
  let ?m = "AList.updates ks A []"
  have m: "dict_comp A [] = Inr ?m"
    using keys by (rule dict_comp_updates)
  have "distinct (map fst ?m)"
    using dict_comp_distinct [OF m] by simp
  then have "lookup_all ?m (map fst ?m) = Inr (map snd ?m)"
    by (intro lookup_all_keys) auto
  then have first: "get_diff (JArr A) (JArr []) =
      Inr \<lparr>new = mset (map snd ?m), removed = {#}, updated = []\<rparr>"
    by (simp add: get_diff_def Let_def m)
  have len: "length ks = length A"
    using keys by (metis length_map)
  have second: "map_of ?m = map_of (rev (zip ks A))"
    using len by (simp add: updates_conv' map_upds_def)
  have "distinct ks \<Longrightarrow> map snd ?m = A"
    using len by (simp add: updates_fresh)
  with first second show ?thesis by blast
qed

theorem get_diff_empty_local_witness:
  "map doc_key [example_a1, example_b] = map Inr [JStr ''a.pdf'', JStr ''b.pdf''] \<and>
   get_diff (JArr [example_a1, example_b]) (JArr []) =
     Inr \<lparr>new = {#example_a1, example_b#}, removed = {#}, updated = []\<rparr>"
proof -
  have h: "map doc_key [example_a1, example_b] = map Inr [JStr ''a.pdf'', JStr ''b.pdf'']"
    by (simp add: doc_key_def example_defs)
  from h get_diff_empty_local [OF h] show ?thesis by simp
qed



section \<open>Steps of a command\<close>

declare mkdir_parents.simps [simp del]

lemma io_pure_apply [simp]: "io_pure r w = (r, w)"
  by (simp add: io_pure_def)

lemma io_bind_pure_Inl [simp]: "io_bind (io_pure (Inl e)) f = io_pure (Inl e)"
  by (rule ext) (simp add: io_bind_def)

lemma io_bind_pure_Inr [simp]: "io_bind (io_pure (Inr v)) f = f v"
  by (rule ext) (simp add: io_bind_def)

lemma io_bind_cases:
  assumes "io_bind m f w = (r, w')"
  obtains (raised) e where "m w = (Inl e, w')" and "r = Inl e"
    | (went_on) v w1 where "m w = (Inr v, w1)" and "f v w1 = (r, w')"
  using assms by (auto simp: io_bind_def split: prod.splits sum.splits)

lemma io_bind_Inr:
  "io_bind m f w = (Inr y, w') \<longleftrightarrow> (\<exists>v w1. m w = (Inr v, w1) \<and> f v w1 = (Inr y, w'))"
  by (auto simp: io_bind_def split: prod.splits sum.splits)

lemma io_bind_raised: "m w = (Inl e, w1) \<Longrightarrow> io_bind m f w = (Inl e, w1)"
  by (simp add: io_bind_def)

lemma io_bind_went_on: "m w = (Inr v, w1) \<Longrightarrow> io_bind m f w = f v w1"
  by (simp add: io_bind_def)

lemma read_content_world: "read_content env p w = (r, w') \<Longrightarrow> w' = w"
  by (auto simp: read_content_def split: sum.splits option.splits node.splits)

lemma snd_load_local_meta [simp]: "snd (load_local_meta env p w) = w"
  by (auto simp: load_local_meta_def io_bind_def
      split: prod.splits sum.splits dest: read_content_world)

lemma root_of_meta [simp]: "root_of ''meta.json'' = []"
  by (simp add: root_of_def)

lemma name_parts_meta [simp]: "name_parts ''meta.json'' = [''meta.json'']"
  by (simp add: name_parts_def)

lemma truediv_meta [simp]: "path_truediv (Path d) (JStr ''meta.json'') = Inr (meta_path d)"
  by (simp add: meta_path_def)

declare path_truediv.simps(1) [simp del]

text \<open>
  \<^verbatim>\<open>status\<close> after its first lines: an exception of the load ends it; otherwise the
  scraper is run, and what follows only computes.
\<close>

lemma status_raised:
  assumes "load_local_meta env (meta_path data_dir) w = (Inl e, w0)"
  shows "status env data_dir output_format w = (Inl e, w)"
proof -
  have "w0 = w"
    using snd_load_local_meta [of env "meta_path data_dir" w] assms by simp
  with assms show ?thesis
    by (simp add: status_def Let_def io_bind_raised)
qed

lemma status_loaded:
  assumes "load_local_meta env (meta_path data_dir) w = (Inr v, w0)"
  shows "status env data_dir output_format w =
    (py_bind (scrape_result env) (\<lambda>scraped_info.
     py_bind (py_getitem v ''document_info'') (\<lambda>local.
     py_bind (get_diff scraped_info local) (\<lambda>doc_diff.
       if output_format = ''json'' then Inr (Pretty doc_diff)
       else py_bind (py_get v ''updated'' (JStr ''never'')) (\<lambda>last_updated.
         Inr (Summary last_updated (size (new doc_diff)) (size (removed doc_diff))
           (length (updated doc_diff))))))),
     snd (scrape_document_info env w))"
proof -
  have "w0 = w"
    using snd_load_local_meta [of env "meta_path data_dir" w] assms by simp
  with assms have run: "status env data_dir output_format w =
      io_bind (scrape_document_info env) (\<lambda>scraped_info.
      io_bind (io_pure (py_getitem v ''document_info'')) (\<lambda>local.
      io_bind (io_pure (get_diff scraped_info local)) (\<lambda>doc_diff.
        if output_format = ''json'' then io_return (Pretty doc_diff)
        else
          io_bind (io_pure (py_get v ''updated'' (JStr ''never''))) (\<lambda>last_updated.
            io_return (Summary last_updated (size (new doc_diff)) (size (removed doc_diff))
              (length (updated doc_diff))))))) w"
    by (simp add: status_def Let_def
        io_bind_went_on [where m = "load_local_meta env (meta_path data_dir)"])
  show ?thesis
  proof (cases "scrape_result env")
    case (Inl e)
    then show ?thesis
      unfolding run by (simp add: io_bind_def scrape_document_info_def)
  next
    case scraped: (Inr scraped_info)
    show ?thesis
    proof (cases "py_getitem v ''document_info''")
      case (Inl e)
      then show ?thesis
        unfolding run using scraped by (simp add: io_bind_def scrape_document_info_def)
    next
      case local: (Inr local)
      show ?thesis
      proof (cases "get_diff scraped_info local")
        case (Inl e)
        then show ?thesis
          unfolding run using scraped local
          by (simp add: io_bind_def scrape_document_info_def)
      next
        case (Inr doc_diff)
        then show ?thesis
          unfolding run using scraped local
          by (cases "py_get v ''updated'' (JStr ''never'')")
            (simp_all add: io_bind_def scrape_document_info_def io_return_def)
      qed
    qed
  qed
qed

section \<open>What a download can change\<close>

lemma writes_within_refl [simp]: "writes_within T w w"
  by (simp add: writes_within_def)

lemma writes_within_events [simp]: "writes_within T w (w\<lparr>events := es\<rparr>)"
  by (simp add: writes_within_def)

lemma writes_within_trans:
  "writes_within T a b \<Longrightarrow> writes_within T b c \<Longrightarrow> writes_within T a c"
  unfolding writes_within_def
proof (intro allI)
  fix l
  assume ab: "\<forall>l. files b l = files a l \<or> files a l = None \<and> files b l = Some Dir
      \<or> l \<in> T \<and> files a l \<noteq> Some Dir \<and> (\<exists>x. files b l = Some (File (Bytes x)))"
    and bc: "\<forall>l. files c l = files b l \<or> files b l = None \<and> files c l = Some Dir
      \<or> l \<in> T \<and> files b l \<noteq> Some Dir \<and> (\<exists>x. files c l = Some (File (Bytes x)))"
  from ab [rule_format, of l] bc [rule_format, of l]
  show "files c l = files a l \<or> files a l = None \<and> files c l = Some Dir
      \<or> l \<in> T \<and> files a l \<noteq> Some Dir \<and> (\<exists>x. files c l = Some (File (Bytes x)))"
    by auto
qed

lemma writes_within_mono: "writes_within S w w' \<Longrightarrow> S \<subseteq> T \<Longrightarrow> writes_within T w w'"
  unfolding writes_within_def by blast

lemma writes_within_kept:
  "writes_within T w w' \<Longrightarrow> l \<notin> T \<Longrightarrow> files w l = Some x \<Longrightarrow> files w' l = Some x"
  unfolding writes_within_def by (metis option.distinct(1))

text \<open>Directories stay, so a path keeps leading where it led.\<close>

lemma writes_within_dir:
  "writes_within T w w' \<Longrightarrow> node_at w l = Some Dir \<Longrightarrow> node_at w' l = Some Dir"
  unfolding writes_within_def node_at_def
  by metis

lemma walk_stable:
  assumes "\<And>l. node_at w l = Some Dir \<Longrightarrow> node_at w' l = Some Dir"
  shows "walk w cur ns = Inr l \<Longrightarrow> walk w' cur ns = Inr l"
proof (induction ns arbitrary: cur)
  case Nil
  then show ?case by simp
next
  case (Cons n ns)
  from Cons.prems have dir: "node_at w cur = Some Dir"
    by (auto split: option.splits node.splits)
  with Cons.prems have "walk w (if n = ''..'' then butlast cur else cur @ [n]) ns = Inr l"
    by simp
  then have "walk w' (if n = ''..'' then butlast cur else cur @ [n]) ns = Inr l"
    by (rule Cons.IH)
  with assms [OF dir] show ?case by simp
qed

lemma locate_stable:
  assumes "\<And>l. node_at w l = Some Dir \<Longrightarrow> node_at w' l = Some Dir"
  shows "locate env w p = Inr l \<Longrightarrow> locate env w' p = Inr l"
  unfolding locate_def using assms by (rule walk_stable)

lemma destination_stable:
  assumes "\<And>l. node_at w l = Some Dir \<Longrightarrow> node_at w' l = Some Dir"
  shows "destination env w dest_dir doc = Some l \<Longrightarrow> destination env w' dest_dir doc = Some l"
  using locate_stable [of w w', OF assms]
  by (auto simp: destination_def split: sum.splits)

lemma locate_written:
  "writes_within T w w' \<Longrightarrow> locate env w p = Inr l \<Longrightarrow> locate env w' p = Inr l"
  by (rule locate_stable) (rule writes_within_dir)

lemma destination_written:
  "writes_within T w w' \<Longrightarrow> destination env w dest_dir doc = Some l \<Longrightarrow>
   destination env w' dest_dir doc = Some l"
  by (rule destination_stable) (rule writes_within_dir)




lemma os_mkdir_writes: "os_mkdir env p w = (r, w') \<Longrightarrow> writes_within T w w'"
  by (auto simp: os_mkdir_def writes_within_def node_at_def
      split: if_splits sum.splits)

lemma mkdir_exist_ok_writes: "mkdir_exist_ok env p w = (r, w') \<Longrightarrow> writes_within T w w'"
  by (auto simp: mkdir_exist_ok_def split: prod.splits sum.splits if_splits
      dest: os_mkdir_writes [where T = T])

lemma mkdir_parents_writes: "mkdir_parents env p w = (r, w') \<Longrightarrow> writes_within T w w'"
proof (induction env p w arbitrary: r w' rule: mkdir_parents.induct)
  case (1 env p w)
  obtain r0 w0 where first: "os_mkdir env p w = (r0, w0)"
    by (cases "os_mkdir env p w")
  have w0: "writes_within T w w0"
    using first by (rule os_mkdir_writes)
  show ?case
  proof (cases r0)
    case (Inr u)
    then show ?thesis
      using "1.prems" first w0 by (simp add: mkdir_parents.simps [of env p w])
  next
    case (Inl e)
    show ?thesis
    proof (cases "e = FileNotFoundError \<and> parent p \<noteq> p")
      case False
      then show ?thesis
        using "1.prems" first Inl w0
        by (auto simp: mkdir_parents.simps [of env p w] split: if_splits)
    next
      case True
      obtain r1 w1 where up: "mkdir_parents env (parent p) w0 = (r1, w1)"
        by (cases "mkdir_parents env (parent p) w0")
      have w1: "writes_within T w0 w1"
        using "1.IH" [OF first [symmetric] Inl _ _ up] True by simp
      show ?thesis
      proof (cases r1)
        case (Inl e')
        then show ?thesis
          using "1.prems" first \<open>r0 = Inl e\<close> True up w0 w1
          by (auto simp: mkdir_parents.simps [of env p w] intro: writes_within_trans)
      next
        case (Inr u)
        then have "mkdir_exist_ok env p w1 = (r, w')"
          using "1.prems" first \<open>r0 = Inl e\<close> True up
          by (simp add: mkdir_parents.simps [of env p w])
        then have "writes_within T w1 w'"
          by (rule mkdir_exist_ok_writes)
        with w0 w1 show ?thesis
          by (blast intro: writes_within_trans)
      qed
    qed
  qed
qed

lemma open_write_raises: "open_write env p w = (Inl e, w') \<Longrightarrow> w' = w"
  by (auto simp: open_write_def split: sum.splits if_splits)

lemma open_write_opened:
  assumes "open_write env p w = (Inr l, w')"
  shows "locate env w p = Inr l" and "files w l \<noteq> Some Dir"
    and "files w' = (files w)(l \<mapsto> File (Bytes []))"
  using assms
  by (auto simp: open_write_def node_at_def split: sum.splits if_splits)

lemma write_after_open:
  assumes "open_write env p w = (Inr l, w1)" and "write_content l (Bytes b) w1 = (r, w')"
  shows "writes_within {l} w w'" and "files w' l = Some (File (Bytes b))"
  using open_write_opened [OF assms(1)] assms(2)
  by (auto simp: write_content_def writes_within_def split: if_splits)

lemma open_write_writes:
  assumes "open_write env p w = (Inr l, w')"
  shows "writes_within {l} w w'"
  using open_write_opened [OF assms]
  by (auto simp: writes_within_def split: if_splits)

lemma py_urlopen_writes: "py_urlopen env i url w = (r, w') \<Longrightarrow> writes_within T w w'"
  by (cases url) auto

lemma download_document_run:
  assumes run: "download_document env dest_dir i doc_info w = (r, w')"
  shows "writes_within {} w w' \<or>
    (\<exists>file_path dest_path l.
       py_getitem doc_info ''file_path'' = Inr file_path \<and>
       path_truediv dest_dir file_path = Inr dest_path \<and>
       locate env w' dest_path = Inr l \<and> writes_within {l} w w')"
proof (cases "py_bind (py_getitem doc_info ''file_path'') (path_truediv dest_dir)")
  case (Inl e)
  then have "w' = w"
    using run
    by (cases "py_getitem doc_info ''file_path''") (auto simp: download_document_def)
  then show ?thesis by simp
next
  case (Inr dest_path)
  then obtain file_path where fp: "py_getitem doc_info ''file_path'' = Inr file_path"
    and dp: "path_truediv dest_dir file_path = Inr dest_path"
    by (auto simp: py_bind_eq_Inr)
  show ?thesis
  proof (cases "py_getitem doc_info ''url''")
    case (Inl e)
    then have "w' = w"
      using run fp dp by (simp add: download_document_def)
    then show ?thesis by simp
  next
    case (Inr url)
    obtain r1 w1 where made: "mkdir_parents env (parent dest_path) w = (r1, w1)"
      by (cases "mkdir_parents env (parent dest_path) w")
    have w1: "writes_within {} w w1"
      using made by (rule mkdir_parents_writes)
    obtain r2 w2 where asked: "py_urlopen env i url w1 = (r2, w2)"
      by (cases "py_urlopen env i url w1")
    have w2: "writes_within {} w w2"
      using w1 py_urlopen_writes [OF asked] by (rule writes_within_trans)
    obtain r3 w3 where opened: "open_write env dest_path w2 = (r3, w3)"
      by (cases "open_write env dest_path w2")
    have rest: "io_bind (mkdir_parents env (parent dest_path)) (\<lambda>u.
        io_bind (py_urlopen env i url) (\<lambda>response.
        io_bind (open_write env dest_path) (\<lambda>dest_file.
        io_bind (io_pure response) (\<lambda>body.
          write_content dest_file (Bytes body))))) w = (r, w')"
      using run fp dp Inr by (simp add: download_document_def)
    show ?thesis
    proof (cases r1)
      case (Inl e)
      then have "w' = w1"
        using rest made by (simp add: io_bind_raised)
      with w1 show ?thesis by simp
    next
      case r1: (Inr u)
      have rest1: "io_bind (py_urlopen env i url) (\<lambda>response.
          io_bind (open_write env dest_path) (\<lambda>dest_file.
          io_bind (io_pure response) (\<lambda>body.
            write_content dest_file (Bytes body)))) w1 = (r, w')"
        using rest made r1 by (simp add: io_bind_went_on)
      show ?thesis
      proof (cases r2)
        case (Inl e)
        then have "w' = w2"
          using rest1 asked by (simp add: io_bind_raised)
        with w2 show ?thesis by simp
      next
        case r2: (Inr response)
        have rest2: "io_bind (open_write env dest_path) (\<lambda>dest_file.
            io_bind (io_pure response) (\<lambda>body.
              write_content dest_file (Bytes body))) w2 = (r, w')"
          using rest1 asked r2 by (simp add: io_bind_went_on)
        show ?thesis
        proof (cases r3)
          case (Inl e)
          then have "w' = w2"
            using rest2 opened open_write_raises [of env dest_path w2 e w3]
            by (simp add: io_bind_raised)
          with w2 show ?thesis by simp
        next
          case r3: (Inr l)
          have here: "locate env w2 dest_path = Inr l"
            using opened r3 open_write_opened(1) by blast
          have rest3: "io_bind (io_pure response) (\<lambda>body.
              write_content l (Bytes body)) w3 = (r, w')"
            using rest2 opened r3 by (simp add: io_bind_went_on)
          have last: "writes_within {l} w2 w'"
          proof (cases response)
            case (Inl e)
            then have "w' = w3"
              using rest3 by simp
            then show ?thesis
              using opened r3 open_write_writes by blast
          next
            case (Inr body)
            then have "write_content l (Bytes body) w3 = (r, w')"
              using rest3 by simp
            then show ?thesis
              using opened r3 write_after_open(1) by blast
          qed
          have "writes_within {l} w w2"
            using w2 by (rule writes_within_mono) simp
          then have "writes_within {l} w w'"
            using last by (rule writes_within_trans)
          moreover have "locate env w' dest_path = Inr l"
            using last here by (rule locate_written)
          ultimately show ?thesis
            using fp dp by blast
        qed
      qed
    qed
  qed
qed

lemma download_document_writes:
  assumes "download_document env dest_dir i doc_info w = (r, w')"
  shows "writes_within (set_option (destination env w' dest_dir doc_info)) w w'"
  using download_document_run [OF assms]
proof
  assume "writes_within {} w w'"
  then show ?thesis by (rule writes_within_mono) simp
next
  assume "\<exists>file_path dest_path l.
       py_getitem doc_info ''file_path'' = Inr file_path \<and>
       path_truediv dest_dir file_path = Inr dest_path \<and>
       locate env w' dest_path = Inr l \<and> writes_within {l} w w'"
  then obtain l where "destination env w' dest_dir doc_info = Some l" "writes_within {l} w w'"
    by (auto simp: destination_def)
  then show ?thesis by simp
qed

lemma download_document_done:
  assumes "download_document env dest_dir i doc_info w = (Inr (), w')"
  shows "\<exists>file_path dest_path url body l.
      py_getitem doc_info ''file_path'' = Inr file_path \<and>
      path_truediv dest_dir file_path = Inr dest_path \<and>
      py_getitem doc_info ''url'' = Inr (JStr url) \<and>
      urlopen env i url = Inr (Inr body) \<and>
      locate env w' dest_path = Inr l \<and>
      files w' l = Some (File (Bytes body))"
proof -
  from assms obtain file_path dest_path url response w1 w2 w3 body l
    where fp: "py_getitem doc_info ''file_path'' = Inr file_path"
      and dp: "path_truediv dest_dir file_path = Inr dest_path"
      and url: "py_getitem doc_info ''url'' = Inr url"
      and asked: "py_urlopen env i url w1 = (Inr response, w2)"
      and opened: "open_write env dest_path w2 = (Inr l, w3)"
      and body: "response = Inr body"
      and written: "write_content l (Bytes body) w3 = (Inr (), w')"
    by (auto simp: download_document_def io_bind_Inr)
  from asked obtain u where u: "url = JStr u" and "urlopen env i u = Inr response"
    by (cases url) auto
  moreover have "locate env w' dest_path = Inr l"
    using write_after_open(1) [OF opened written] open_write_opened(1) [OF opened]
    by (rule locate_written)
  moreover have "files w' l = Some (File (Bytes body))"
    using opened written by (rule write_after_open(2))
  ultimately show ?thesis
    using fp dp url body by blast
qed

lemma download_loop_writes:
  "download_loop env dest_dir i items w = (r, w') \<Longrightarrow>
   writes_within (\<Union>doc \<in> set items. set_option (destination env w' dest_dir doc)) w w'"
proof (induction items arbitrary: i w r w')
  case Nil
  then show ?case by (simp add: io_return_def)
next
  case (Cons doc items)
  let ?T = "\<Union>d \<in> set (doc # items). set_option (destination env w' dest_dir d)"
  from Cons.prems have "io_bind (download_document env dest_dir i doc)
      (\<lambda>u. download_loop env dest_dir (Suc i) items) w = (r, w')"
    by simp
  then show ?case
  proof (cases rule: io_bind_cases)
    case (raised e)
    then have "writes_within (set_option (destination env w' dest_dir doc)) w w'"
      by (intro download_document_writes)
    then show ?thesis
      by (rule writes_within_mono) auto
  next
    case (went_on u w1)
    have rest: "writes_within (\<Union>d \<in> set items. set_option (destination env w' dest_dir d)) w1 w'"
      using went_on(2) by (rule Cons.IH)
    have "writes_within (set_option (destination env w1 dest_dir doc)) w w1"
      using went_on(1) by (rule download_document_writes)
    moreover have "set_option (destination env w1 dest_dir doc) \<subseteq> ?T"
      using destination_written [OF rest, of env dest_dir doc] by auto
    ultimately have "writes_within ?T w w1"
      by (rule writes_within_mono)
    moreover have "writes_within ?T w1 w'"
      using rest by (rule writes_within_mono) auto
    ultimately show ?thesis
      by (rule writes_within_trans)
  qed
qed

lemma download_loop_done:
  assumes "download_loop env dest_dir i items w = (Inr (), w')" and "k < length items"
  shows "\<exists>file_path dest_path url body l.
      py_getitem (items ! k) ''file_path'' = Inr file_path \<and>
      path_truediv dest_dir file_path = Inr dest_path \<and>
      py_getitem (items ! k) ''url'' = Inr (JStr url) \<and>
      urlopen env (i + k) url = Inr (Inr body) \<and>
      locate env w' dest_path = Inr l \<and>
      ((\<forall>j. k < j \<and> j < length items \<longrightarrow>
          destination env w' dest_dir (items ! j) \<noteq> Some l) \<longrightarrow>
       files w' l = Some (File (Bytes body)))"
  using assms
proof (induction items arbitrary: i w k)
  case Nil
  then show ?case by simp
next
  case (Cons doc items)
  from Cons.prems(1) obtain w1
    where one: "download_document env dest_dir i doc w = (Inr (), w1)"
      and rest: "download_loop env dest_dir (Suc i) items w1 = (Inr (), w')"
    by (auto simp: io_bind_Inr)
  note after = download_loop_writes [OF rest]
  show ?case
  proof (cases k)
    case 0
    from download_document_done [OF one] obtain file_path dest_path url body l
      where facts: "py_getitem doc ''file_path'' = Inr file_path"
        "path_truediv dest_dir file_path = Inr dest_path"
        "py_getitem doc ''url'' = Inr (JStr url)"
        "urlopen env i url = Inr (Inr body)"
      and here: "locate env w1 dest_path = Inr l"
      and held: "files w1 l = Some (File (Bytes body))"
      by blast
    have there: "locate env w' dest_path = Inr l"
      using after here by (rule locate_written)
    have "files w' l = Some (File (Bytes body))"
      if later: "\<forall>j. 0 < j \<and> j < length (doc # items) \<longrightarrow>
          destination env w' dest_dir ((doc # items) ! j) \<noteq> Some l"
    proof -
      have "destination env w' dest_dir d \<noteq> Some l" if "d \<in> set items" for d
      proof -
        from that obtain n where "n < length items" "items ! n = d"
          by (auto simp: in_set_conv_nth)
        then show ?thesis using later [rule_format, of "Suc n"] by simp
      qed
      then have "l \<notin> (\<Union>d \<in> set items. set_option (destination env w' dest_dir d))"
        by auto
      then show ?thesis
        using writes_within_kept [OF after _ held] by blast
    qed
    with facts there 0 show ?thesis by auto
  next
    case (Suc n)
    then have n: "n < length items" using Cons.prems(2) by simp
    from Cons.IH [OF rest n] obtain file_path dest_path url body l
      where facts: "py_getitem (items ! n) ''file_path'' = Inr file_path"
        "path_truediv dest_dir file_path = Inr dest_path"
        "py_getitem (items ! n) ''url'' = Inr (JStr url)"
        "urlopen env (Suc i + n) url = Inr (Inr body)"
        "locate env w' dest_path = Inr l"
      and held: "(\<forall>j. n < j \<and> j < length items \<longrightarrow>
          destination env w' dest_dir (items ! j) \<noteq> Some l) \<longrightarrow>
        files w' l = Some (File (Bytes body))"
      by blast
    have "(\<forall>j. k < j \<and> j < length (doc # items) \<longrightarrow>
          destination env w' dest_dir ((doc # items) ! j) \<noteq> Some l) \<longrightarrow>
        files w' l = Some (File (Bytes body))"
    proof
      assume later: "\<forall>j. k < j \<and> j < length (doc # items) \<longrightarrow>
          destination env w' dest_dir ((doc # items) ! j) \<noteq> Some l"
      have "\<forall>j. n < j \<and> j < length items \<longrightarrow>
          destination env w' dest_dir (items ! j) \<noteq> Some l"
      proof (intro allI impI)
        fix j assume "n < j \<and> j < length items"
        then show "destination env w' dest_dir (items ! j) \<noteq> Some l"
          using later [rule_format, of "Suc j"] Suc by simp
      qed
      with held show "files w' l = Some (File (Bytes body))" by blast
    qed
    with facts Suc show ?thesis by auto
  qed
qed

lemmas path_defs = path_truediv.simps(1) Path_def root_of_def name_parts_def locate_def parent_def
  path_str_def node_at_def path_exists_def is_dir_def meta_path_def

lemmas command_defs = download_def download_documents_def download_document_def
  scrape_document_info_def os_mkdir_def mkdir_exist_ok_def open_write_def write_content_def
  read_content_def io_bind_def io_return_def io_raise_def manifest_def
  already_exists_def status_def load_local_meta_def destination_def

section \<open>Claims on the commands\<close>

text \<open>
  C6. When the destination path exists, \<^verbatim>\<open>download\<close> raises the
  \<^verbatim>\<open>ClickException\<close> "destination directory '...' already exists" and leaves the world
  as it was: no file or directory is made, the scraper is not run, no URL is opened.
\<close>

theorem download_existing_destination:
  assumes "path_exists env w (Path dest_dir)"
  shows "download env dest_dir w = (Inl (ClickException (already_exists (Path dest_dir))), w)"
  using assms by (simp add: download_def io_bind_def io_raise_def Let_def)

theorem download_existing_destination_witness:
  "path_exists (example_env (JArr [example_a2])) example_world (Path ''/home'') \<and>
   download (example_env (JArr [example_a2])) ''/home'' example_world =
     (Inl (ClickException
        (''destination directory '' @ [CHR 0x27] @ ''/home'' @ [CHR 0x27] @ '' already exists'')),
      example_world)"
proof -
  have h: "path_exists (example_env (JArr [example_a2])) example_world (Path ''/home'')"
    by (simp add: example_defs path_defs)
  have "already_exists (Path ''/home'') =
      ''destination directory '' @ [CHR 0x27] @ ''/home'' @ [CHR 0x27] @ '' already exists''"
    by (simp add: already_exists_def path_defs)
  with h download_existing_destination [OF h] show ?thesis by simp
qed

text \<open>
  C7, as amended. After a successful \<^verbatim>\<open>download\<close> the file \<^verbatim>\<open>meta.json\<close> of the
  destination holds the manifest: the description, the time as \<^verbatim>\<open>updated\<close>, and as
  \<^verbatim>\<open>document_info\<close> what the scraper returned, unchanged. Every record of it has a
  \<^verbatim>\<open>file_path\<close>, a destination \<^verbatim>\<open>dest_dir / file_path\<close> and a URL that was fetched;
  the destination is a file with the fetched bytes provided that it is neither the
  manifest's file nor the destination of a later record.
\<close>

theorem download_success:
  assumes "download env dest_dir w = (Inr (), w')"
  shows "\<exists>document_info items meta.
      scrape_result env = Inr document_info \<and>
      py_iter document_info = Inr items \<and>
      locate env w' (meta_path dest_dir) = Inr meta \<and>
      files w' meta = Some (File (JsonText (manifest env document_info))) \<and>
      (\<forall>k < length items. \<exists>file_path dest_path url body l.
         py_getitem (items ! k) ''file_path'' = Inr file_path \<and>
         path_truediv (Path dest_dir) file_path = Inr dest_path \<and>
         py_getitem (items ! k) ''url'' = Inr (JStr url) \<and>
         urlopen env k url = Inr (Inr body) \<and>
         locate env w' dest_path = Inr l \<and>
         (l \<noteq> meta \<and>
          (\<forall>j. k < j \<and> j < length items \<longrightarrow>
             destination env w' (Path dest_dir) (items ! j) \<noteq> Some l) \<longrightarrow>
          files w' l = Some (File (Bytes body))))"
proof -
  from assms obtain w1 document_info w2 w3 meta w4
    where scraped: "scrape_document_info env w1 = (Inr document_info, w2)"
      and docs: "download_documents env document_info (Path dest_dir) w2 = (Inr (), w3)"
      and opened: "open_write env (meta_path dest_dir) w3 = (Inr meta, w4)"
      and written: "write_content meta (JsonText (manifest env document_info)) w4 = (Inr (), w')"
    by (auto simp: download_def Let_def io_bind_Inr io_raise_def split: if_splits)
  from scraped have result: "scrape_result env = Inr document_info"
    by (simp add: scrape_document_info_def)
  from docs obtain items where items: "py_iter document_info = Inr items"
    and loop: "download_loop env (Path dest_dir) 0 items w2 = (Inr (), w3)"
    by (auto simp: download_documents_def io_bind_Inr)
  note at_open = open_write_opened [OF opened]
  have final: "files w' = (files w3)(meta \<mapsto> File (JsonText (manifest env document_info)))"
    using written at_open(3) by (auto simp: write_content_def)
  have dirs: "node_at w' l = Some Dir" if "node_at w3 l = Some Dir" for l
    using that at_open(2) final by (auto simp: node_at_def split: if_splits)
  have meta: "locate env w' (meta_path dest_dir) = Inr meta"
    using dirs at_open(1) by (rule locate_stable)
  have "\<exists>file_path dest_path url body l.
         py_getitem (items ! k) ''file_path'' = Inr file_path \<and>
         path_truediv (Path dest_dir) file_path = Inr dest_path \<and>
         py_getitem (items ! k) ''url'' = Inr (JStr url) \<and>
         urlopen env k url = Inr (Inr body) \<and>
         locate env w' dest_path = Inr l \<and>
         (l \<noteq> meta \<and>
          (\<forall>j. k < j \<and> j < length items \<longrightarrow>
             destination env w' (Path dest_dir) (items ! j) \<noteq> Some l) \<longrightarrow>
          files w' l = Some (File (Bytes body)))"
    if k: "k < length items" for k
  proof -
    from download_loop_done [OF loop k] obtain file_path dest_path url body l
      where facts: "py_getitem (items ! k) ''file_path'' = Inr file_path"
        "path_truediv (Path dest_dir) file_path = Inr dest_path"
        "py_getitem (items ! k) ''url'' = Inr (JStr url)"
        "urlopen env k url = Inr (Inr body)"
      and here: "locate env w3 dest_path = Inr l"
      and held: "(\<forall>j. k < j \<and> j < length items \<longrightarrow>
          destination env w3 (Path dest_dir) (items ! j) \<noteq> Some l) \<longrightarrow>
        files w3 l = Some (File (Bytes body))"
      unfolding add_0 by blast
    have there: "locate env w' dest_path = Inr l"
      using dirs here by (rule locate_stable)
    have "files w' l = Some (File (Bytes body))"
      if "l \<noteq> meta" and later: "\<forall>j. k < j \<and> j < length items \<longrightarrow>
          destination env w' (Path dest_dir) (items ! j) \<noteq> Some l"
    proof -
      have "\<forall>j. k < j \<and> j < length items \<longrightarrow>
          destination env w3 (Path dest_dir) (items ! j) \<noteq> Some l"
        using later destination_stable [of w3 w', OF dirs] by blast
      with held have "files w3 l = Some (File (Bytes body))" by blast
      with \<open>l \<noteq> meta\<close> final show ?thesis by simp
    qed
    with facts there show ?thesis by blast
  qed
  with result items meta final show ?thesis by auto
qed

theorem download_success_witness:
  "download (example_env (JArr [example_a2])) ''out'' example_world =
     (Inr (),
      \<lparr>files = [[''home''] \<mapsto> Dir, [''home'', ''out''] \<mapsto> Dir,
                [''home'', ''out'', ''a.pdf''] \<mapsto> File (Bytes ''AAA''),
                [''home'', ''out'', ''meta.json''] \<mapsto>
                  File (JsonText (manifest (example_env (JArr [example_a2])) (JArr [example_a2])))],
       events = [ScraperRun, UrlOpened ''http://x/a'']\<rparr>) \<and>
   (\<exists>document_info items meta.
      scrape_result (example_env (JArr [example_a2])) = Inr document_info \<and>
      py_iter document_info = Inr items \<and>
      files \<lparr>files = [[''home''] \<mapsto> Dir, [''home'', ''out''] \<mapsto> Dir,
                [''home'', ''out'', ''a.pdf''] \<mapsto> File (Bytes ''AAA''),
                [''home'', ''out'', ''meta.json''] \<mapsto>
                  File (JsonText (manifest (example_env (JArr [example_a2])) (JArr [example_a2])))],
       events = [ScraperRun, UrlOpened ''http://x/a'']\<rparr> meta =
        Some (File (JsonText (manifest (example_env (JArr [example_a2])) document_info))))"
proof -
  let ?env = "example_env (JArr [example_a2])"
  let ?w' = "\<lparr>files = [[''home''] \<mapsto> Dir, [''home'', ''out''] \<mapsto> Dir,
                [''home'', ''out'', ''a.pdf''] \<mapsto> File (Bytes ''AAA''),
                [''home'', ''out'', ''meta.json''] \<mapsto>
                  File (JsonText (manifest ?env (JArr [example_a2])))],
       events = [ScraperRun, UrlOpened ''http://x/a'']\<rparr>"
  have h: "download ?env ''out'' example_world = (Inr (), ?w')"
    by (simp add: example_defs path_defs command_defs mkdir_parents.simps Let_def)
  from download_success [OF h] have "\<exists>document_info items meta.
      scrape_result ?env = Inr document_info \<and> py_iter document_info = Inr items \<and>
      files ?w' meta = Some (File (JsonText (manifest ?env document_info)))"
    by blast
  with h show ?thesis by blast
qed

text \<open>
  The claim itself fails for a record whose \<^verbatim>\<open>file_path\<close> is \<^verbatim>\<open>meta.json\<close>: the
  download succeeds, the bytes \<^verbatim>\<open>MMM\<close> are fetched and written, and then the manifest is
  written over them.
\<close>

theorem download_manifest_overwrites_document:
  "fst (download (example_env (JArr [example_m])) ''out'' example_world) = Inr () \<and>
   scrape_result (example_env (JArr [example_m])) = Inr (JArr [example_m]) \<and>
   py_getitem example_m ''file_path'' = Inr (JStr ''meta.json'') \<and>
   path_truediv (Path ''out'') (JStr ''meta.json'') = Inr (PyPath [] [''out'', ''meta.json'']) \<and>
   locate (example_env (JArr [example_m]))
       (snd (download (example_env (JArr [example_m])) ''out'' example_world))
       (PyPath [] [''out'', ''meta.json'']) =
     Inr [''home'', ''out'', ''meta.json''] \<and>
   py_getitem example_m ''url'' = Inr (JStr ''http://x/m'') \<and>
   urlopen (example_env (JArr [example_m])) 0 ''http://x/m'' = Inr (Inr ''MMM'') \<and>
   files (snd (download (example_env (JArr [example_m])) ''out'' example_world))
       [''home'', ''out'', ''meta.json''] =
     Some (File (JsonText (manifest (example_env (JArr [example_m])) (JArr [example_m])))) \<and>
   files (snd (download (example_env (JArr [example_m])) ''out'' example_world))
       [''home'', ''out'', ''meta.json''] \<noteq> Some (File (Bytes ''MMM''))"
  by (simp add: example_defs example_m_def path_defs command_defs mkdir_parents.simps Let_def)

text \<open>
  C8, as amended. \<^verbatim>\<open>status\<close> writes no file itself: whatever it returns or raises,
  the world after it is the one before it (when loading the manifest raised) or the one
  that the run of the scraper left. So an entry, in the data directory or elsewhere, that
  the run of the scraper leaves as it was is after \<^verbatim>\<open>status\<close> what it was before.
\<close>

theorem status_writes_only_scraper:
  "(snd (status env data_dir output_format w) = w \<or>
    snd (status env data_dir output_format w) = snd (scrape_document_info env w)) \<and>
   (\<forall>l. scraper_files env (files w) l = files w l \<longrightarrow>
      files (snd (status env data_dir output_format w)) l = files w l)"
proof -
  obtain r w0 where load: "load_local_meta env (meta_path data_dir) w = (r, w0)"
    by (cases "load_local_meta env (meta_path data_dir) w")
  have "snd (status env data_dir output_format w) = w \<or>
      snd (status env data_dir output_format w) = snd (scrape_document_info env w)"
  proof (cases r)
    case (Inl e)
    with load show ?thesis by (simp add: status_raised)
  next
    case (Inr v)
    with load show ?thesis by (simp add: status_loaded)
  qed
  moreover have "files (snd (scrape_document_info env w)) = scraper_files env (files w)"
    by (simp add: scrape_document_info_def)
  ultimately show ?thesis by auto
qed

theorem status_writes_only_scraper_witness:
  "scraper_files (example_env_writing (JArr [example_a2]))
       (files (example_world_with (JsonText (JObj [(''document_info'', JArr [])])))) [''home'', ''out'', ''meta.json''] =
     files (example_world_with (JsonText (JObj [(''document_info'', JArr [])]))) [''home'', ''out'', ''meta.json''] \<and>
   files (snd (status (example_env_writing (JArr [example_a2])) ''out'' ''summary''
       (example_world_with (JsonText (JObj [(''document_info'', JArr [])]))))) [''home'', ''out'', ''meta.json''] =
     Some (File (JsonText (JObj [(''document_info'', JArr [])])))"
proof -
  let ?env = "example_env_writing (JArr [example_a2])"
  let ?w = "example_world_with (JsonText (JObj [(''document_info'', JArr [])]))"
  let ?meta = "[''home'', ''out'', ''meta.json'']"
  have kept: "scraper_files ?env (files ?w) ?meta = files ?w ?meta"
    by (simp add: example_env_writing_def example_env_def)
  have "files ?w ?meta = Some (File (JsonText (JObj [(''document_info'', JArr [])])))"
    by (simp add: example_world_with_def)
  with kept status_writes_only_scraper [where env = ?env and w = ?w and data_dir = "''out''"
      and output_format = "''summary''"]
  show ?thesis by simp
qed

text \<open>
  The claim itself fails when the run of the scraper writes in the data directory, as it
  does in the working directory: with the data directory \<^verbatim>\<open>.\<close>, \<^verbatim>\<open>status\<close> prints its
  summary, and the data directory has a file \<^verbatim>\<open>-\<close> that it had not.
\<close>

theorem status_changes_data_dir:
  "locate (example_env_writing (JArr [example_a2])) example_world (Path ''.'') =
     Inr [''home''] \<and>
   files example_world [''home'', ''-''] = None \<and>
   fst (status (example_env_writing (JArr [example_a2])) ''.'' ''summary'' example_world) =
     Inr (Summary (JStr ''never'') 1 0 0) \<and>
   files (snd (status (example_env_writing (JArr [example_a2])) ''.'' ''summary'' example_world))
       [''home'', ''-''] = Some (File (Bytes []))"
proof -
  let ?env = "example_env_writing (JArr [example_a2])"
  have "load_local_meta ?env (meta_path ''.'') example_world =
      (Inr (JObj [(''document_info'', JArr [])]), example_world)"
    by (simp add: load_local_meta_def example_env_writing_def example_defs path_defs)
  then have "status ?env ''.'' ''summary'' example_world =
      (Inr (Summary (JStr ''never'') 1 0 0), snd (scrape_document_info ?env example_world))"
    by (simp add: status_loaded example_env_writing_def example_defs diff_defs)
  then show ?thesis
    by (simp add: scrape_document_info_def example_env_writing_def example_defs path_defs)
qed






end
